theory Spec2Isabelle
  imports Main "HOL-Library.Word" "HOL-Library.Sublist"
begin

section \<open>Data model of pack.go\<close>

text \<open>
  Go's \<^verbatim>\<open>int\<close> is a 64-bit machine integer (addition wraps), \<^verbatim>\<open>byte\<close> and
  \<^verbatim>\<open>packObjectType\<close> are \<^verbatim>\<open>uint8\<close>, \<^verbatim>\<open>SHA\<close> is a string type.
  A \<^verbatim>\<open>[]byte\<close> field distinguishes the nil slice (\<open>None\<close>) from an empty
  non-nil slice (\<open>Some []\<close>): the source tests both \<^verbatim>\<open>== nil\<close> and \<^verbatim>\<open>len(..)\<close>.
\<close>

type_synonym go_int = "64 word"
type_synonym byte = "8 word"
type_synonym SHA = string
type_synonym packObjectType = "8 word"

definition OBJ_COMMIT :: packObjectType where "OBJ_COMMIT = 1"
definition OBJ_TREE :: packObjectType where "OBJ_TREE = 2"
definition OBJ_BLOB :: packObjectType where "OBJ_BLOB = 3"
definition OBJ_TAG :: packObjectType where "OBJ_TAG = 4"
definition OBJ_OFS_DELTA :: packObjectType where "OBJ_OFS_DELTA = 6"
definition OBJ_REF_DELTA :: packObjectType where "OBJ_REF_DELTA = 7"

text \<open>
  The errors the file creates with \<^verbatim>\<open>fmt.Errorf\<close>, one constructor per format string
  (with the value formatted into it), and \<open>ErrExternal\<close> for an error value handed back
  by a function that is not in this file (\<^verbatim>\<open>patchDelta\<close>, \<^verbatim>\<open>ioutil.ReadAll\<close>,
  \<^verbatim>\<open>os.Open\<close>, \<^verbatim>\<open>VerifyPack\<close>, the parsers, \<^verbatim>\<open>ioutil.ReadDir\<close>), which this
  file passes on as it is. Such a value is an \<open>ext_error\<close>.
\<close>

type_synonym ext_error = string

datatype error =
    ErrBaseObjectDataNil
  | ErrBaseObjectNotInDictionary SHA
  | ErrNotACommit packObjectType
  | ErrNotATree packObjectType
  | ErrNotABlob packObjectType
  | ErrObjectNotInAnyPackfiles SHA
  | ErrExternal string

record packObject =
  Name :: SHA
  Offset :: go_int
  Data :: "byte list option"
  obj_type :: packObjectType
  PatchedData :: "byte list option"
  Size :: go_int
  SizeInPackfile :: go_int
  negativeOffset :: go_int
  BaseObjectName :: SHA
  BaseObjectType :: packObjectType
  baseOffset :: go_int
  Depth :: go_int
  err :: "error option"

text \<open>\<^verbatim>\<open>len(s)\<close> and the bytes a \<^verbatim>\<open>bytes.NewReader(s)\<close> yields; both treat nil as empty.\<close>

definition len :: "byte list option \<Rightarrow> nat" where
  "len s = (case s of None \<Rightarrow> 0 | Some bs \<Rightarrow> length bs)"

definition bytes_of :: "byte list option \<Rightarrow> byte list" where
  "bytes_of s = (case s of None \<Rightarrow> [] | Some bs \<Rightarrow> bs)"

text \<open>
  Descriptors are handled through pointers (\<^verbatim>\<open>*packObject\<close>), and \<^verbatim>\<open>Patch\<close> mutates
  the base it reaches through the dictionary, so the model has an explicit store. A pointer
  is an address; an address the store does not map is the nil pointer, and reading a field
  through it panics.
\<close>

type_synonym addr = nat
type_synonym heap = "addr \<rightharpoonup> packObject"
type_synonym dict = "SHA \<rightharpoonup> addr"

text \<open>What a call of \<^verbatim>\<open>Patch\<close> ends with: \<^verbatim>\<open>return nil\<close>, \<^verbatim>\<open>return err\<close>, or a
  nil-pointer panic.\<close>

datatype status = Success | Failure error | Panic

text \<open>
  \<^verbatim>\<open>patchDelta\<close> is not in this file; it is a parameter. It returns an error or an
  \<^verbatim>\<open>io.Reader\<close>; the reader is represented by what \<^verbatim>\<open>ioutil.ReadAll\<close> gets from it:
  the bytes read, and the error that stopped the reading, if any.
\<close>

type_synonym reader = "byte list \<times> ext_error option"
type_synonym patchDelta_fn = "byte list \<Rightarrow> byte list \<Rightarrow> ext_error + reader"

section \<open>PatchedType\<close>

definition PatchedType :: "packObject \<Rightarrow> packObjectType" where
  "PatchedType p = (if obj_type p < OBJ_OFS_DELTA then obj_type p else BaseObjectType p)"

section \<open>Patch\<close>

text \<open>
  The recursion follows \<^verbatim>\<open>BaseObjectName\<close> through the dictionary and does not end on
  a cyclic chain: \<open>None\<close> is the call that never returns. The branch on the hard-coded
  name at the top of the source only registers an empty deferred function and is omitted.
\<close>

definition apply_patch :: "patchDelta_fn \<Rightarrow> addr \<Rightarrow> addr \<Rightarrow> heap \<Rightarrow> status \<times> heap" where
  "apply_patch patchDelta p base h1 =
     (case h1 base of
        None \<Rightarrow> (Panic, h1)
      | Some b \<Rightarrow>
          (case h1 p of
             None \<Rightarrow> (Panic, h1)
           | Some q \<Rightarrow>
               (case patchDelta (bytes_of (PatchedData b)) (bytes_of (Data q)) of
                  Inl e \<Rightarrow> (Failure (ErrExternal e), h1)
                | Inr (out, rerr) \<Rightarrow>
                    (let q1 = q\<lparr>PatchedData := Some out\<rparr>;
                         h2 = h1(p \<mapsto> q1)
                     in case rerr of
                          Some e \<Rightarrow> (Failure (ErrExternal e), h2)
                        | None \<Rightarrow>
                            (case h2 base of
                               None \<Rightarrow> (Panic, h2)
                             | Some b2 \<Rightarrow>
                                 (let q2 = q1\<lparr>BaseObjectType := BaseObjectType b2\<rparr>;
                                      h3 = h2(p \<mapsto> q2)
                                  in case h3 base of
                                       None \<Rightarrow> (Panic, h3)
                                     | Some b3 \<Rightarrow>
                                         (Success,
                                          h3(p \<mapsto> q2\<lparr>Depth := Depth q2 + Depth b3\<rparr>))))))))"

partial_function (option) Patch ::
  "patchDelta_fn \<Rightarrow> dict \<Rightarrow> addr \<Rightarrow> heap \<Rightarrow> (status \<times> heap) option"
where
  "Patch patchDelta dict p h =
     (case h p of
        None \<Rightarrow> Some (Panic, h)
      | Some obj \<Rightarrow>
          if len (PatchedData obj) \<noteq> 0 then Some (Success, h)
          else if obj_type obj < OBJ_OFS_DELTA then
            (if Data obj = None then Some (Failure ErrBaseObjectDataNil, h)
             else Some (Success,
                        h(p \<mapsto> obj\<lparr>PatchedData := Data obj, BaseObjectType := obj_type obj\<rparr>)))
          else if obj_type obj \<ge> OBJ_OFS_DELTA then
            (case dict (BaseObjectName obj) of
               None \<Rightarrow> Some (Failure (ErrBaseObjectNotInDictionary (BaseObjectName obj)), h)
             | Some base \<Rightarrow>
                 Option.bind (Patch patchDelta dict base h)
                   (\<lambda>(st, h1). case st of
                        Success \<Rightarrow> Some (apply_patch patchDelta p base h1)
                      | Failure e \<Rightarrow> Some (Failure e, h1)
                      | Panic \<Rightarrow> Some (Panic, h1)))
          else Some (Success, h))"

section \<open>The accessors and normalize\<close>

text \<open>
  \<^verbatim>\<open>parseCommit\<close>, \<^verbatim>\<open>parseTree\<close> and \<^verbatim>\<open>parseBlob\<close> are not in this file; they are
  parameters. A Go result pair \<^verbatim>\<open>(value, error)\<close> is a sum. \<^verbatim>\<open>p.Type()\<close> is the
  generated \<^verbatim>\<open>String\<close> of the type, which the error constructors carry as the type itself.
\<close>

record ('c, 't, 'b) parsers =
  parseCommit :: "byte list \<Rightarrow> string \<Rightarrow> SHA \<Rightarrow> ext_error + 'c"
  parseTree :: "byte list \<Rightarrow> string \<Rightarrow> string \<Rightarrow> ext_error + 't"
  parseBlob :: "byte list \<Rightarrow> string \<Rightarrow> ext_error + 'b"

datatype 'a outcome = Returns 'a | Panics

datatype ('c, 't, 'b) GitObject =
    CommitObject 'c
  | TreeObject 't
  | BlobObject 'b
  | PackObject addr

text \<open>\<^verbatim>\<open>strconv.Itoa\<close>: the decimal digits of the signed value.\<close>

fun digits :: "nat \<Rightarrow> string" where
  "digits n =
     (if n < 10 then [char_of (48 + n)]
      else digits (n div 10) @ [char_of (48 + n mod 10)])"

declare digits.simps [simp del]

definition Itoa :: "go_int \<Rightarrow> string" where
  "Itoa i = (if sint i < 0 then CHR ''-'' # digits (nat (- sint i)) else digits (nat (sint i)))"

text \<open>The assignment \<^verbatim>\<open>if p.PatchedData == nil { p.PatchedData = p.Data }\<close> the three
  accessors share.\<close>

definition default_patched :: "packObject \<Rightarrow> packObject" where
  "default_patched obj = (if PatchedData obj = None then obj\<lparr>PatchedData := Data obj\<rparr> else obj)"

text \<open>A parser's result pair as the accessor returns it.\<close>

definition parsed :: "ext_error + 'a \<Rightarrow> error + 'a" where
  "parsed r = (case r of Inl e \<Rightarrow> Inl (ErrExternal e) | Inr v \<Rightarrow> Inr v)"

definition Commit ::
  "('c, 't, 'b) parsers \<Rightarrow> addr \<Rightarrow> string \<Rightarrow> heap \<Rightarrow> (error + 'c) outcome \<times> heap" where
  "Commit ps p basedir h =
     (case h p of
        None \<Rightarrow> (Panics, h)
      | Some obj \<Rightarrow>
          if obj_type obj \<noteq> OBJ_COMMIT then (Returns (Inl (ErrNotACommit (obj_type obj))), h)
          else (let obj1 = default_patched obj
                in (Returns (parsed (parseCommit ps (bytes_of (PatchedData obj1)) (Itoa (Size obj1))
                                    (Name obj1))),
                    h(p \<mapsto> obj1))))"

definition Tree ::
  "('c, 't, 'b) parsers \<Rightarrow> addr \<Rightarrow> string \<Rightarrow> heap \<Rightarrow> (error + 't) outcome \<times> heap" where
  "Tree ps p basedir h =
     (case h p of
        None \<Rightarrow> (Panics, h)
      | Some obj \<Rightarrow>
          if obj_type obj \<noteq> OBJ_TREE then (Returns (Inl (ErrNotATree (obj_type obj))), h)
          else (let obj1 = default_patched obj
                in (Returns (parsed (parseTree ps (bytes_of (PatchedData obj1)) (Itoa (Size obj1))
                                    basedir)),
                    h(p \<mapsto> obj1))))"

definition Blob ::
  "('c, 't, 'b) parsers \<Rightarrow> addr \<Rightarrow> string \<Rightarrow> heap \<Rightarrow> (error + 'b) outcome \<times> heap" where
  "Blob ps p basedir h =
     (case h p of
        None \<Rightarrow> (Panics, h)
      | Some obj \<Rightarrow>
          if obj_type obj \<noteq> OBJ_BLOB then (Returns (Inl (ErrNotABlob (obj_type obj))), h)
          else (let obj1 = default_patched obj
                in (Returns (parsed (parseBlob ps (bytes_of (PatchedData obj1)) basedir)),
                    h(p \<mapsto> obj1))))"

text \<open>An accessor's result pair as \<^verbatim>\<open>normalize\<close> returns it, converted to
  \<^verbatim>\<open>(GitObject, error)\<close>.\<close>

definition as_GitObject ::
  "('a \<Rightarrow> ('c, 't, 'b) GitObject) \<Rightarrow> (error + 'a) outcome \<times> heap
     \<Rightarrow> (error + ('c, 't, 'b) GitObject) outcome \<times> heap" where
  "as_GitObject wrap r =
     (case r of
        (Panics, h) \<Rightarrow> (Panics, h)
      | (Returns (Inl e), h) \<Rightarrow> (Returns (Inl e), h)
      | (Returns (Inr v), h) \<Rightarrow> (Returns (Inr (wrap v)), h))"

definition normalize ::
  "('c, 't, 'b) parsers \<Rightarrow> addr \<Rightarrow> string \<Rightarrow> heap
     \<Rightarrow> (error + ('c, 't, 'b) GitObject) outcome \<times> heap" where
  "normalize ps p basedir h =
     (case h p of
        None \<Rightarrow> (Panics, h)
      | Some obj \<Rightarrow>
          if obj_type obj = OBJ_COMMIT then as_GitObject CommitObject (Commit ps p basedir h)
          else if obj_type obj = OBJ_TREE then as_GitObject TreeObject (Tree ps p basedir h)
          else if obj_type obj = OBJ_BLOB then as_GitObject BlobObject (Blob ps p basedir h)
          else (Returns (Inr (PackObject p)), h))"

section \<open>Searching the packfiles\<close>

text \<open>\<^verbatim>\<open>strings.HasPrefix\<close>, \<^verbatim>\<open>strings.HasSuffix\<close> and \<^verbatim>\<open>strings.TrimSuffix\<close>.\<close>

definition HasPrefix :: "string \<Rightarrow> string \<Rightarrow> bool" where
  "HasPrefix s pre = (length s \<ge> length pre \<and> take (length pre) s = pre)"

definition HasSuffix :: "string \<Rightarrow> string \<Rightarrow> bool" where
  "HasSuffix s suf = (length s \<ge> length suf \<and> drop (length s - length suf) s = suf)"

definition TrimSuffix :: "string \<Rightarrow> string \<Rightarrow> string" where
  "TrimSuffix s suf = (if HasSuffix s suf then take (length s - length suf) s else s)"

text \<open>
  The file system and \<^verbatim>\<open>VerifyPack\<close> are outside this file. \<open>'f\<close> is the type of an open
  file (\<^verbatim>\<open>*os.File\<close>). \<^verbatim>\<open>ReadDir\<close> gives the file names of the entries. \<^verbatim>\<open>VerifyPack\<close>
  returns pointers to the descriptors it has allocated; the search reads only their
  \<^verbatim>\<open>Name\<close> and returns one of them, so the model takes the descriptors for the pointers.
\<close>

record 'f env =
  Join :: "string list \<Rightarrow> string"
  ReadDir :: "string \<Rightarrow> ext_error + string list"
  Open :: "string \<Rightarrow> ext_error + 'f"
  VerifyPack :: "'f \<Rightarrow> 'f \<Rightarrow> ext_error + packObject list"

fun packfileNames :: "string list \<Rightarrow> SHA list" where
  "packfileNames [] = []"
| "packfileNames (file # files) =
     (let base = TrimSuffix file ''.pack''
      in if base = file then packfileNames files else base # packfileNames files)"

definition listPackfiles :: "'f env \<Rightarrow> string \<Rightarrow> error + SHA list" where
  "listPackfiles env basedir =
     (case ReadDir env (Join env [basedir, ''objects'', ''pack'']) of
        Inl e \<Rightarrow> Inl (ErrExternal e)
      | Inr files \<Rightarrow> Inr (packfileNames files))"

text \<open>
  What the search does to the outside, in order: each call of \<^verbatim>\<open>os.Open\<close> (with its
  path), each call of \<^verbatim>\<open>VerifyPack\<close>, each \<^verbatim>\<open>Close\<close>. A \<^verbatim>\<open>defer\<close> pushes the file on
  the function's stack of deferred calls, which run, last first, when \<^verbatim>\<open>objInPacks\<close>
  returns.
\<close>

datatype 'f event = OpenCall string | VerifyCall 'f 'f | CloseCall 'f

text \<open>The two paths \<^verbatim>\<open>objInPacks\<close> builds for an archive name.\<close>

definition pack_path :: "'f env \<Rightarrow> string \<Rightarrow> SHA \<Rightarrow> string" where
  "pack_path env basedir name = Join env [basedir, ''objects'', ''pack'', name @ ''.pack'']"

definition idx_path :: "'f env \<Rightarrow> string \<Rightarrow> SHA \<Rightarrow> string" where
  "idx_path env basedir name = Join env [basedir, ''objects'', ''pack'', name @ ''.idx'']"

fun scan :: "packObject list \<Rightarrow> SHA \<Rightarrow> packObject option" where
  "scan [] object = None"
| "scan (obj # objs) object =
     (if HasPrefix (Name obj) object then Some obj else scan objs object)"

fun packs_loop ::
  "'f env \<Rightarrow> string \<Rightarrow> SHA \<Rightarrow> SHA list \<Rightarrow> 'f list \<Rightarrow> 'f event list
     \<Rightarrow> (error + packObject) \<times> 'f list \<times> 'f event list" where
  "packs_loop env basedir object [] defers tr =
     (Inl (ErrObjectNotInAnyPackfiles object), defers, tr)"
| "packs_loop env basedir object (name # packs) defers tr =
     (let ppath = pack_path env basedir name;
          ipath = idx_path env basedir name
      in case Open env ppath of
           Inl e \<Rightarrow> (Inl (ErrExternal e), defers, tr @ [OpenCall ppath])
         | Inr pf \<Rightarrow>
             (case Open env ipath of
                Inl e \<Rightarrow>
                  (Inl (ErrExternal e), pf # defers, tr @ [OpenCall ppath, OpenCall ipath])
              | Inr idxf \<Rightarrow>
                  (let defers2 = idxf # pf # defers;
                       tr2 = tr @ [OpenCall ppath, OpenCall ipath, VerifyCall pf idxf]
                   in case VerifyPack env pf idxf of
                        Inl e \<Rightarrow> (Inl (ErrExternal e), defers2, tr2)
                      | Inr objs \<Rightarrow>
                          (case scan objs object of
                             Some obj \<Rightarrow> (Inr obj, defers2, tr2)
                           | None \<Rightarrow> packs_loop env basedir object packs defers2 tr2))))"

definition objInPacks ::
  "'f env \<Rightarrow> SHA list \<Rightarrow> SHA \<Rightarrow> string \<Rightarrow> (error + packObject) \<times> 'f event list" where
  "objInPacks env packs object basedir =
     (case packs_loop env basedir object packs [] [] of
        (r, defers, tr) \<Rightarrow> (r, tr @ map CloseCall defers))"

definition searchPacks ::
  "'f env \<Rightarrow> SHA \<Rightarrow> string \<Rightarrow> (error + packObject) \<times> 'f event list" where
  "searchPacks env object basedir =
     (case listPackfiles env basedir of
        Inl e \<Rightarrow> (Inl e, [])
      | Inr packs \<Rightarrow> objInPacks env packs object basedir)"

section \<open>Notions the properties are stated with\<close>

text \<open>
  The base a call of \<^verbatim>\<open>Patch\<close> on \<open>p\<close> calls \<^verbatim>\<open>Patch\<close> on, if it does: \<open>p\<close> is
  allocated, its \<^verbatim>\<open>PatchedData\<close> has length 0, its type is a delta type and the dictionary
  has its \<^verbatim>\<open>BaseObjectName\<close>. \<open>calls\<close> is that relation between addresses.
\<close>

definition next_base :: "dict \<Rightarrow> heap \<Rightarrow> addr \<Rightarrow> addr option" where
  "next_base dict h p =
     (case h p of
        None \<Rightarrow> None
      | Some obj \<Rightarrow>
          if len (PatchedData obj) = 0 \<and> OBJ_OFS_DELTA \<le> obj_type obj
          then dict (BaseObjectName obj) else None)"

definition calls :: "dict \<Rightarrow> heap \<Rightarrow> (addr \<times> addr) set" where
  "calls dict h = {(p, b). next_base dict h p = Some b}"

text \<open>
  How the search fares on one archive: the error that ends it there (the first of the two
  \<^verbatim>\<open>os.Open\<close> calls and of \<^verbatim>\<open>VerifyPack\<close> to fail), or the descriptors
  \<^verbatim>\<open>VerifyPack\<close> returns.
\<close>

definition archive :: "'f env \<Rightarrow> string \<Rightarrow> SHA \<Rightarrow> ext_error + packObject list" where
  "archive env basedir name =
     (case Open env (pack_path env basedir name) of
        Inl e \<Rightarrow> Inl e
      | Inr pf \<Rightarrow>
          (case Open env (idx_path env basedir name) of
             Inl e \<Rightarrow> Inl e
           | Inr idxf \<Rightarrow> VerifyPack env pf idxf))"

definition archive_ok :: "'f env \<Rightarrow> string \<Rightarrow> SHA \<Rightarrow> bool" where
  "archive_ok env basedir name = (case archive env basedir name of Inl e \<Rightarrow> False | Inr objs \<Rightarrow> True)"

definition archive_objs :: "'f env \<Rightarrow> string \<Rightarrow> SHA \<Rightarrow> packObject list" where
  "archive_objs env basedir name = (case archive env basedir name of Inl e \<Rightarrow> [] | Inr objs \<Rightarrow> objs)"

definition matches :: "SHA \<Rightarrow> packObject \<Rightarrow> bool" where
  "matches object obj = HasPrefix (Name obj) object"

text \<open>An archive the search passes: both files open, the verifier accepts it, and no
  descriptor of it matches the query.\<close>

definition clean_miss :: "'f env \<Rightarrow> string \<Rightarrow> SHA \<Rightarrow> SHA \<Rightarrow> bool" where
  "clean_miss env basedir object name =
     (case archive env basedir name of Inl e \<Rightarrow> False | Inr objs \<Rightarrow> scan objs object = None)"

definition archive_paths :: "'f env \<Rightarrow> string \<Rightarrow> SHA \<Rightarrow> string list" where
  "archive_paths env basedir name = [pack_path env basedir name, idx_path env basedir name]"

text \<open>The \<^verbatim>\<open>os.Open\<close> calls in a trace, and the files a trace has opened and not closed
  (every successful \<^verbatim>\<open>os.Open\<close> of the search is followed by the \<^verbatim>\<open>VerifyCall\<close> or by a
  \<^verbatim>\<open>CloseCall\<close> naming the file).\<close>

fun opened_paths :: "'f event list \<Rightarrow> string list" where
  "opened_paths [] = []"
| "opened_paths (OpenCall path # tr) = path # opened_paths tr"
| "opened_paths (ev # tr) = opened_paths tr"

fun is_close :: "'f event \<Rightarrow> bool" where
  "is_close (CloseCall f) = True"
| "is_close ev = False"

section \<open>Concrete inputs\<close>

text \<open>The zero value of the struct, and descriptors as a decoded pack holds them.\<close>

definition zero_packObject :: packObject where
  "zero_packObject =
     \<lparr>Name = [], Offset = 0, Data = None, obj_type = 0, PatchedData = None, Size = 0,
      SizeInPackfile = 0, negativeOffset = 0, BaseObjectName = [], BaseObjectType = 0,
      baseOffset = 0, Depth = 0, err = None\<rparr>"

definition ex_commit :: packObject where
  "ex_commit = zero_packObject\<lparr>Name := ''c0'', Data := Some [3, 4], obj_type := OBJ_COMMIT\<rparr>"

definition ex_delta :: packObject where
  "ex_delta = zero_packObject\<lparr>Name := ''d1'', Data := Some [9], obj_type := OBJ_REF_DELTA,
                             BaseObjectName := ''c0'', Depth := 1\<rparr>"

definition ex_delta_empty :: packObject where
  "ex_delta_empty = zero_packObject\<lparr>Name := ''e2'', Data := Some [], obj_type := OBJ_REF_DELTA,
                                   BaseObjectName := ''d1'', Depth := 1\<rparr>"

definition ex_orphan :: packObject where
  "ex_orphan = zero_packObject\<lparr>Name := ''f3'', Data := Some [7], obj_type := OBJ_OFS_DELTA,
                              BaseObjectName := ''99''\<rparr>"

definition ex_deep_blob :: packObject where
  "ex_deep_blob = zero_packObject\<lparr>Name := ''b4'', Data := Some [1, 2], obj_type := OBJ_BLOB,
                                 Depth := 5\<rparr>"

definition ex_heap :: heap where
  "ex_heap = [0 \<mapsto> ex_commit, 1 \<mapsto> ex_delta, 2 \<mapsto> ex_delta_empty, 3 \<mapsto> ex_orphan,
              4 \<mapsto> ex_deep_blob]"

definition ex_dict :: dict where
  "ex_dict = [''c0'' \<mapsto> 0, ''d1'' \<mapsto> 1, ''e2'' \<mapsto> 2, ''f3'' \<mapsto> 3, ''b4'' \<mapsto> 4]"

text \<open>A stand-in for \<^verbatim>\<open>patchDelta\<close>: the result is the base followed by the delta's bytes,
  or nothing when the delta has no bytes.\<close>

definition ex_patchDelta :: patchDelta_fn where
  "ex_patchDelta base delta = Inr (if delta = [] then [] else base @ delta, None)"

text \<open>The store after \<^verbatim>\<open>Patch\<close> on address 1, after \<^verbatim>\<open>Patch\<close> on address 2, and after a
  second \<^verbatim>\<open>Patch\<close> on address 2.\<close>

definition ex_commit_patched :: packObject where
  "ex_commit_patched = ex_commit\<lparr>PatchedData := Some [3, 4], BaseObjectType := OBJ_COMMIT\<rparr>"

definition ex_delta_patched :: packObject where
  "ex_delta_patched =
     ex_delta\<lparr>PatchedData := Some [3, 4, 9], BaseObjectType := OBJ_COMMIT, Depth := 1\<rparr>"

definition ex_heap1 :: heap where
  "ex_heap1 = ex_heap(0 \<mapsto> ex_commit_patched, 1 \<mapsto> ex_delta_patched)"

definition ex_heap2 :: heap where
  "ex_heap2 = ex_heap1(2 \<mapsto> ex_delta_empty\<lparr>PatchedData := Some [], BaseObjectType := OBJ_COMMIT,
                                              Depth := 2\<rparr>)"

definition ex_heap3 :: heap where
  "ex_heap3 = ex_heap1(2 \<mapsto> ex_delta_empty\<lparr>PatchedData := Some [], BaseObjectType := OBJ_COMMIT,
                                              Depth := 3\<rparr>)"

text \<open>Stand-ins for the parsers, and a storage directory with two archives.\<close>

definition ex_parsers :: "(byte list, byte list, byte list) parsers" where
  "ex_parsers =
     \<lparr>parseCommit = (\<lambda>bs size name. Inr bs), parseTree = (\<lambda>bs size basedir. Inr bs),
      parseBlob = (\<lambda>bs basedir. Inr bs)\<rparr>"

fun ex_join :: "string list \<Rightarrow> string" where
  "ex_join [] = []"
| "ex_join [x] = x"
| "ex_join (x # xs) = x @ ''/'' @ ex_join xs"

definition ex_obj :: "SHA \<Rightarrow> packObject" where
  "ex_obj name = zero_packObject\<lparr>Name := name, Data := Some [1], obj_type := OBJ_BLOB\<rparr>"

definition ex_env :: "string env" where
  "ex_env =
     \<lparr>Join = ex_join,
      ReadDir = (\<lambda>dir. Inr [''p1.pack'', ''p1.idx'', ''p2.pack'', ''p2.idx'', ''README'']),
      Open = (\<lambda>path. Inr path),
      VerifyPack = (\<lambda>pf idxf.
        if pf = ''r/objects/pack/p1.pack'' then Inr [ex_obj ''ab12'', ex_obj ''cd34'']
        else if pf = ''r/objects/pack/p2.pack'' then Inr [ex_obj ''ef56'']
        else Inl ''bad pack'')\<rparr>"

text \<open>A directory with three archives, the second without its index file.\<close>

definition ex_env_broken :: "string env" where
  "ex_env_broken =
     ex_env\<lparr>ReadDir := (\<lambda>dir. Inr [''p1.pack'', ''p1.idx'', ''p2.pack'', ''p3.idx'', ''p3.pack'']),
            Open := (\<lambda>path. if path = ''r/objects/pack/p2.idx'' then Inl ''no such file''
                             else Inr path)\<rparr>"

section \<open>Unfolding Patch\<close>

lemmas obj_consts = OBJ_COMMIT_def OBJ_TREE_def OBJ_BLOB_def OBJ_TAG_def OBJ_OFS_DELTA_def
  OBJ_REF_DELTA_def

lemmas ex_objs = zero_packObject_def ex_commit_def ex_delta_def ex_delta_empty_def ex_orphan_def
  ex_deep_blob_def ex_commit_patched_def ex_delta_patched_def

lemmas ex_heaps = ex_heap_def ex_heap1_def ex_heap2_def ex_heap3_def ex_dict_def

lemmas patch_defs = len_def bytes_of_def apply_patch_def ex_patchDelta_def

text \<open>One lemma per branch of the body: the early return, a full-content type, a delta
  type.\<close>

lemma Patch_resolved:
  "h p = Some obj \<Longrightarrow> len (PatchedData obj) \<noteq> 0 \<Longrightarrow> Patch pd dict p h = Some (Success, h)"
  by (subst Patch.simps) simp

lemma Patch_full:
  "h p = Some obj \<Longrightarrow> len (PatchedData obj) = 0 \<Longrightarrow> obj_type obj < OBJ_OFS_DELTA \<Longrightarrow>
   Patch pd dict p h =
     (if Data obj = None then Some (Failure ErrBaseObjectDataNil, h)
      else Some (Success, h(p \<mapsto> obj\<lparr>PatchedData := Data obj, BaseObjectType := obj_type obj\<rparr>)))"
  by (subst Patch.simps) simp

lemma Patch_delta:
  "h p = Some obj \<Longrightarrow> len (PatchedData obj) = 0 \<Longrightarrow> OBJ_OFS_DELTA \<le> obj_type obj \<Longrightarrow>
   Patch pd dict p h =
     (case dict (BaseObjectName obj) of
        None \<Rightarrow> Some (Failure (ErrBaseObjectNotInDictionary (BaseObjectName obj)), h)
      | Some base \<Rightarrow>
          Option.bind (Patch pd dict base h)
            (\<lambda>(st, h1). case st of
                 Success \<Rightarrow> Some (apply_patch pd p base h1)
               | Failure e \<Rightarrow> Some (Failure e, h1)
               | Panic \<Rightarrow> Some (Panic, h1)))"
  by (subst Patch.simps) (simp add: not_less [symmetric])

section \<open>What a returning call of Patch has touched\<close>

text \<open>
  A call that returns has followed a chain of bases without a cycle, and has changed only
  descriptors on that chain. So the base's call leaves the calling descriptor as it was.
\<close>

lemma apply_patch_frame: "q \<noteq> p \<Longrightarrow> snd (apply_patch pd p b h) q = h q"
  by (auto simp: apply_patch_def Let_def split: option.splits sum.splits prod.splits)

lemma calls_functional: "(a, b) \<in> calls dict h \<Longrightarrow> (a, c) \<in> calls dict h \<Longrightarrow> b = c"
  by (simp add: calls_def)

lemma calls_cycle_step:
  assumes "(a, b) \<in> calls dict h" and "(a, a) \<in> (calls dict h)\<^sup>+"
  shows "(b, b) \<in> (calls dict h)\<^sup>+"
proof -
  from assms(2) obtain z where z: "(a, z) \<in> calls dict h" "(z, a) \<in> (calls dict h)\<^sup>*"
    by (blast dest: tranclD)
  with assms(1) have "z = b" by (blast dest: calls_functional)
  with z assms(1) show ?thesis by (blast intro: rtrancl_into_trancl1)
qed

lemma no_call_no_cycle:
  "next_base dict h a = None \<Longrightarrow> (a, a) \<notin> (calls dict h)\<^sup>+"
  by (auto dest!: tranclD simp: calls_def)

lemma Patch_frame_acyclic_aux:
  assumes "Patch pd0 dict0 a0 h0 = Some r0"
  shows "(a0, a0) \<notin> (calls dict0 h0)\<^sup>+ \<and>
         (\<forall>q. (a0, q) \<notin> (calls dict0 h0)\<^sup>* \<longrightarrow> snd r0 q = h0 q)"
proof (rule Patch.raw_induct [where P = "\<lambda>pd dict a h r.
         (a, a) \<notin> (calls dict h)\<^sup>+ \<and> (\<forall>q. (a, q) \<notin> (calls dict h)\<^sup>* \<longrightarrow> snd r q = h q)",
         OF _ assms], goal_cases)
  case (1 rec pd dict a h r)
  note IH = 1(1) and body = 1(2)
  show ?case
  proof (cases "next_base dict h a")
    case None
    then have acyc: "(a, a) \<notin> (calls dict h)\<^sup>+" by (rule no_call_no_cycle)
    have "\<forall>q. q \<noteq> a \<longrightarrow> snd r q = h q"
      using body None
      by (auto simp: next_base_def not_less [symmetric] split: option.splits if_splits)
    moreover have "\<And>q. (a, q) \<notin> (calls dict h)\<^sup>* \<Longrightarrow> q \<noteq> a" by blast
    ultimately show ?thesis using acyc by blast
  next
    case (Some b)
    then have edge: "(a, b) \<in> calls dict h" by (simp add: calls_def)
    from Some obtain obj where obj: "h a = Some obj" "len (PatchedData obj) = 0"
      "OBJ_OFS_DELTA \<le> obj_type obj" "dict (BaseObjectName obj) = Some b"
      by (auto simp: next_base_def split: option.splits if_splits)
    from body obj have bind: "Option.bind (rec pd dict b h)
            (\<lambda>(st, h1). case st of
                 Success \<Rightarrow> Some (apply_patch pd a b h1)
               | Failure e \<Rightarrow> Some (Failure e, h1)
               | Panic \<Rightarrow> Some (Panic, h1)) = Some r"
      by (simp add: not_less [symmetric])
    then obtain st' h' where
      rec: "rec pd dict b h = Some (st', h')" and
      r: "(case st' of Success \<Rightarrow> Some (apply_patch pd a b h') | Failure e \<Rightarrow> Some (Failure e, h')
                | Panic \<Rightarrow> Some (Panic, h')) = Some r"
      by (auto simp: bind_eq_Some_conv)
    from IH [OF rec] have
      IH1: "(b, b) \<notin> (calls dict h)\<^sup>+" and
      IH2: "\<And>q. (b, q) \<notin> (calls dict h)\<^sup>* \<Longrightarrow> h' q = h q" by auto
    have acyc: "(a, a) \<notin> (calls dict h)\<^sup>+"
      using calls_cycle_step [OF edge] IH1 by blast
    have "snd r q = h q" if q: "(a, q) \<notin> (calls dict h)\<^sup>*" for q
    proof -
      from q have "q \<noteq> a" by blast
      moreover from q edge have "(b, q) \<notin> (calls dict h)\<^sup>*"
        by (blast intro: converse_rtrancl_into_rtrancl)
      then have "h' q = h q" by (rule IH2)
      ultimately show ?thesis
        using r by (cases st') (auto simp: apply_patch_frame)
    qed
    with acyc show ?thesis by blast
  qed
qed

lemma Patch_base_keeps_caller:
  assumes "Patch pd dict b h = Some (st, h1)" and "next_base dict h p = Some b"
  shows "h1 p = h p" and "p \<noteq> b"
proof -
  note aux = Patch_frame_acyclic_aux [OF assms(1), simplified]
  have edge: "(p, b) \<in> calls dict h" using assms(2) by (simp add: calls_def)
  from aux have
    acyc: "(b, b) \<notin> (calls dict h)\<^sup>+" and
    frame: "\<And>q. (b, q) \<notin> (calls dict h)\<^sup>* \<Longrightarrow> h1 q = h q" by auto
  have "(b, p) \<notin> (calls dict h)\<^sup>*"
  proof
    assume "(b, p) \<in> (calls dict h)\<^sup>*"
    with edge have "(b, b) \<in> (calls dict h)\<^sup>+" by (blast intro: rtrancl_into_trancl1)
    with acyc show False by contradiction
  qed
  then show "h1 p = h p" by (rule frame)
  show "p \<noteq> b"
  proof
    assume "p = b"
    with edge have "(b, b) \<in> (calls dict h)\<^sup>+" by blast
    with acyc show False by contradiction
  qed
qed

section \<open>The step of a delta descriptor\<close>

text \<open>
  When the base's call has returned nil, the calling descriptor is as it was before, and the
  rest of the body is determined by what \<^verbatim>\<open>patchDelta\<close> and the reading of its result
  give.
\<close>

lemma next_base_delta:
  "h p = Some obj \<Longrightarrow> len (PatchedData obj) = 0 \<Longrightarrow> OBJ_OFS_DELTA \<le> obj_type obj \<Longrightarrow>
   next_base dict h p = dict (BaseObjectName obj)"
  by (simp add: next_base_def)

lemma Patch_delta_step:
  assumes p: "h p = Some obj" "len (PatchedData obj) = 0" "OBJ_OFS_DELTA \<le> obj_type obj"
    and b: "dict (BaseObjectName obj) = Some b"
    and base: "Patch pd dict b h = Some (Success, h1)" "h1 b = Some bobj"
  shows "Patch pd dict p h =
     Some (case pd (bytes_of (PatchedData bobj)) (bytes_of (Data obj)) of
             Inl e \<Rightarrow> (Failure (ErrExternal e), h1)
           | Inr (out, rerr) \<Rightarrow>
               (case rerr of
                  Some e \<Rightarrow> (Failure (ErrExternal e), h1(p \<mapsto> obj\<lparr>PatchedData := Some out\<rparr>))
                | None \<Rightarrow>
                    (Success,
                     h1(p \<mapsto> obj\<lparr>PatchedData := Some out, BaseObjectType := BaseObjectType bobj,
                                  Depth := Depth obj + Depth bobj\<rparr>))))"
proof -
  have nb: "next_base dict h p = Some b" using p b by (simp add: next_base_delta)
  from Patch_base_keeps_caller [OF base(1) nb] p(1)
  have keep: "h1 p = Some obj" and neq: "p \<noteq> b" by simp_all
  have "Patch pd dict p h = Some (apply_patch pd p b h1)"
    using p b base(1) by (simp add: Patch_delta)
  also have "apply_patch pd p b h1 = (case pd (bytes_of (PatchedData bobj)) (bytes_of (Data obj)) of
             Inl e \<Rightarrow> (Failure (ErrExternal e), h1)
           | Inr (out, rerr) \<Rightarrow>
               (case rerr of
                  Some e \<Rightarrow> (Failure (ErrExternal e), h1(p \<mapsto> obj\<lparr>PatchedData := Some out\<rparr>))
                | None \<Rightarrow>
                    (Success,
                     h1(p \<mapsto> obj\<lparr>PatchedData := Some out, BaseObjectType := BaseObjectType bobj,
                                  Depth := Depth obj + Depth bobj\<rparr>))))"
    using keep neq base(2)
    by (simp add: apply_patch_def Let_def split: sum.splits prod.splits option.splits)
  finally show ?thesis .
qed

lemma Patch_success_allocated:
  assumes "Patch pd dict b h = Some (Success, h1)"
  shows "h1 b \<noteq> None"
proof (cases "h b")
  case None
  with assms show ?thesis by (subst (asm) Patch.simps) simp
next
  case (Some obj)
  show ?thesis
  proof (cases "next_base dict h b")
    case None
    with Some assms show ?thesis
      by (subst (asm) Patch.simps)
         (auto simp: next_base_def not_less [symmetric] split: if_splits option.splits)
  next
    case (Some c)
    with \<open>h b = Some obj\<close> have obj: "len (PatchedData obj) = 0" "OBJ_OFS_DELTA \<le> obj_type obj"
      "dict (BaseObjectName obj) = Some c"
      by (auto simp: next_base_def split: if_splits)
    from assms \<open>h b = Some obj\<close> obj obtain st' h' where
      "(case st' of Success \<Rightarrow> Some (apply_patch pd b c h') | Failure e \<Rightarrow> Some (Failure e, h')
          | Panic \<Rightarrow> Some (Panic, h')) = Some (Success, h1)"
      by (auto simp: Patch_delta bind_eq_Some_conv)
    then have "apply_patch pd b c h' = (Success, h1)"
      by (cases st') simp_all
    then show ?thesis
      by (auto simp: apply_patch_def Let_def split: option.splits sum.splits prod.splits)
  qed
qed

section \<open>Cyclic chains\<close>

text \<open>On a chain of bases that leads back to its start, the recursion has no end: the call
  does not return. A descriptor that names itself as its base is the shortest such chain.\<close>

lemma Patch_cycle_never_returns:
  assumes "(a, a) \<in> (calls dict h)\<^sup>+"
  shows "Patch pd dict a h = None"
proof (cases "Patch pd dict a h")
  case None
  then show ?thesis .
next
  case (Some r)
  from Patch_frame_acyclic_aux [OF Some] assms show ?thesis by blast
qed

lemma self_based_delta_never_returns:
  assumes "h p = Some obj" and "len (PatchedData obj) = 0" and "OBJ_OFS_DELTA \<le> obj_type obj"
    and "dict (BaseObjectName obj) = Some p"
  shows "Patch pd dict p h = None"
proof -
  have "next_base dict h p = Some p" using assms by (simp add: next_base_delta)
  then have "(p, p) \<in> (calls dict h)\<^sup>+" by (simp add: calls_def r_into_trancl)
  then show ?thesis by (rule Patch_cycle_never_returns)
qed

section \<open>Chain depth (C2)\<close>

text \<open>
  C2, as the source has it: for a delta-kind descriptor D not yet resolved whose base B is in
  the dictionary and resolves successfully, and whose delta applies, \<^verbatim>\<open>Patch\<close> returns nil
  and D's \<^verbatim>\<open>Depth\<close> becomes D's prior \<^verbatim>\<open>Depth\<close> plus B's \<^verbatim>\<open>Depth\<close>
  (\<^verbatim>\<open>p.Depth += base.Depth\<close>, in 64-bit arithmetic); B is as its own resolution left it.
\<close>

theorem Patch_depth_adds:
  assumes "h p = Some obj" and "len (PatchedData obj) = 0" and "OBJ_OFS_DELTA \<le> obj_type obj"
    and "dict (BaseObjectName obj) = Some b"
    and "Patch pd dict b h = Some (Success, h1)" and "h1 b = Some bobj"
    and "pd (bytes_of (PatchedData bobj)) (bytes_of (Data obj)) = Inr (out, None)"
  shows "\<exists>h2 obj2. Patch pd dict p h = Some (Success, h2) \<and> h2 p = Some obj2 \<and>
           h2 b = Some bobj \<and> Depth obj2 = Depth obj + Depth bobj"
proof -
  have nb: "next_base dict h p = Some b" using assms by (simp add: next_base_delta)
  have neq: "p \<noteq> b" using Patch_base_keeps_caller(2) [OF assms(5) nb] .
  show ?thesis
    using Patch_delta_step [OF assms(1-6)] assms(6,7) neq by simp
qed

text \<open>Witness for C2: the delta at address 1 of the example store, based on the commit at
  address 0.\<close>

theorem Patch_depth_adds_witness:
  "ex_heap 1 = Some ex_delta \<and> len (PatchedData ex_delta) = 0 \<and> OBJ_OFS_DELTA \<le> obj_type ex_delta \<and>
   ex_dict (BaseObjectName ex_delta) = Some 0 \<and>
   (\<exists>h2 obj2. Patch ex_patchDelta ex_dict 1 ex_heap = Some (Success, h2) \<and> h2 1 = Some obj2 \<and>
       h2 0 = Some ex_commit_patched \<and> Depth obj2 = Depth ex_delta + Depth ex_commit_patched)"
proof -
  have b: "Patch ex_patchDelta ex_dict 0 ex_heap = Some (Success, ex_heap(0 \<mapsto> ex_commit_patched))"
    by (simp add: Patch_full ex_heaps ex_objs obj_consts patch_defs)
  have hyps: "ex_heap 1 = Some ex_delta" "len (PatchedData ex_delta) = 0"
    "OBJ_OFS_DELTA \<le> obj_type ex_delta" "ex_dict (BaseObjectName ex_delta) = Some 0"
    by (simp_all add: ex_heaps ex_objs obj_consts patch_defs)
  have pd: "ex_patchDelta (bytes_of (PatchedData ex_commit_patched)) (bytes_of (Data ex_delta))
      = Inr ([3, 4, 9], None)"
    by (simp add: ex_objs patch_defs)
  from Patch_depth_adds [OF hyps b _ pd] hyps show ?thesis by simp
qed

text \<open>
  C2 as the claim states it (D's depth becomes exactly B's depth, not combined with D's prior
  depth) fails on the example store: the delta at address 1 has prior depth 1, its base has
  depth 0, and after \<^verbatim>\<open>Patch\<close> the delta's depth is 1, not 0.
\<close>

theorem Patch_depth_counterexample:
  "Patch ex_patchDelta ex_dict 1 ex_heap = Some (Success, ex_heap1) \<and>
   map_option Depth (ex_heap1 0) = Some 0 \<and> map_option Depth (ex_heap1 1) = Some 1 \<and>
   map_option Depth (ex_heap1 1) \<noteq> map_option Depth (ex_heap1 0)"
  by (simp add: Patch.simps ex_heaps ex_objs obj_consts patch_defs)

section \<open>The early return (C3)\<close>

text \<open>
  C3, as the source has it: for every descriptor whose \<^verbatim>\<open>PatchedData\<close> is set and not empty
  (the source's test is \<^verbatim>\<open>len(p.PatchedData) != 0\<close>), a call of \<^verbatim>\<open>Patch\<close> returns nil at
  once and leaves the whole store, so every field of the descriptor, as it is.
\<close>

theorem Patch_memoized:
  assumes "h p = Some obj" and "len (PatchedData obj) \<noteq> 0"
  shows "Patch pd dict p h = Some (Success, h)"
  using assms by (subst Patch.simps) simp

text \<open>Witness for C3: the resolved delta at address 1.\<close>

theorem Patch_memoized_witness:
  "ex_heap1 1 = Some ex_delta_patched \<and> len (PatchedData ex_delta_patched) \<noteq> 0 \<and>
   Patch ex_patchDelta ex_dict 1 ex_heap1 = Some (Success, ex_heap1)"
proof -
  have hyps: "ex_heap1 1 = Some ex_delta_patched" "len (PatchedData ex_delta_patched) \<noteq> 0"
    by (simp_all add: ex_heaps ex_objs patch_defs)
  from Patch_memoized [where h = ex_heap1 and p = 1, OF hyps] hyps show ?thesis by simp
qed

text \<open>
  C3 as the claim states it (including a descriptor whose resolved payload is the empty byte
  sequence) fails: the delta at address 2 resolves to the empty payload with depth 2, and a
  second \<^verbatim>\<open>Patch\<close> does not return at once but resolves it again and leaves depth 3.
\<close>

theorem Patch_empty_payload_counterexample:
  "Patch ex_patchDelta ex_dict 2 ex_heap = Some (Success, ex_heap2) \<and>
   map_option PatchedData (ex_heap2 2) = Some (Some []) \<and>
   map_option Depth (ex_heap2 2) = Some 2 \<and>
   Patch ex_patchDelta ex_dict 2 ex_heap2 = Some (Success, ex_heap3) \<and>
   map_option Depth (ex_heap3 2) = Some 3"
  by (simp add: Patch.simps ex_heaps ex_objs obj_consts patch_defs)

section \<open>Full-content descriptors (C4)\<close>




section \<open>A delta on a resolved base (C5)\<close>



text \<open>
  The path C5 does not speak of: \<^verbatim>\<open>patchDelta\<close> succeeds and \<^verbatim>\<open>ioutil.ReadAll\<close> on its
  result fails. The source assigns what was read to \<^verbatim>\<open>PatchedData\<close> before it tests the
  error.
\<close>

lemma Patch_read_failure:
  assumes "h p = Some obj" and "len (PatchedData obj) = 0" and "OBJ_OFS_DELTA \<le> obj_type obj"
    and "dict (BaseObjectName obj) = Some b"
    and "h b = Some bobj" and "len (PatchedData bobj) \<noteq> 0"
    and "pd (bytes_of (PatchedData bobj)) (bytes_of (Data obj)) = Inr (out, Some e)"
  shows "Patch pd dict p h = Some (Failure (ErrExternal e), h(p \<mapsto> obj\<lparr>PatchedData := Some out\<rparr>))"
proof -
  have base: "Patch pd dict b h = Some (Success, h)"
    using assms(5,6) by (rule Patch_resolved)
  show ?thesis
    using Patch_delta_step [OF assms(1-4) base assms(5)] assms(7) by simp
qed

section \<open>A base that is not in the dictionary (C6)\<close>

text \<open>
  C6: for every delta-kind descriptor, with its \<^verbatim>\<open>PatchedData\<close> unset, whose
  \<^verbatim>\<open>BaseObjectName\<close> is not in the dictionary, \<^verbatim>\<open>Patch\<close> returns the error "base object
  not in dictionary" for that name and leaves the store, so the descriptor, unchanged.
\<close>

theorem Patch_unknown_base:
  assumes "h p = Some obj" and "len (PatchedData obj) = 0"
    and "OBJ_OFS_DELTA \<le> obj_type obj" and "dict (BaseObjectName obj) = None"
  shows "Patch pd dict p h = Some (Failure (ErrBaseObjectNotInDictionary (BaseObjectName obj)), h)"
  using assms by (simp add: Patch_delta)

text \<open>Witness for C6: the delta at address 3, whose base name the dictionary lacks.\<close>

theorem Patch_unknown_base_witness:
  "ex_heap 3 = Some ex_orphan \<and> len (PatchedData ex_orphan) = 0 \<and>
   OBJ_OFS_DELTA \<le> obj_type ex_orphan \<and> ex_dict (BaseObjectName ex_orphan) = None \<and>
   Patch ex_patchDelta ex_dict 3 ex_heap = Some (Failure (ErrBaseObjectNotInDictionary ''99''), ex_heap)"
proof -
  have hyps: "ex_heap 3 = Some ex_orphan" "len (PatchedData ex_orphan) = 0"
    "OBJ_OFS_DELTA \<le> obj_type ex_orphan" "ex_dict (BaseObjectName ex_orphan) = None"
    by (simp_all add: ex_heaps ex_objs obj_consts patch_defs)
  have name: "BaseObjectName ex_orphan = ''99''" by (simp add: ex_objs)
  from Patch_unknown_base [where h = ex_heap and p = 3 and pd = ex_patchDelta and dict = ex_dict, OF hyps] hyps name
  show ?thesis by simp
qed

section \<open>The loop over the archives\<close>

text \<open>
  \<^verbatim>\<open>strings.HasPrefix\<close> is the prefix order, the inner loop returns the first matching
  descriptor, and one round of the outer loop either ends the search (an error, a match) or
  goes on to the next archive with two more deferred closes.
\<close>

declare packs_loop.simps [simp del]

lemma find_app:
  "List.find P (xs @ ys) = (case List.find P xs of None \<Rightarrow> List.find P ys | Some x \<Rightarrow> Some x)"
  by (induction xs) simp_all

lemma HasPrefix_iff_prefix: "HasPrefix s pre \<longleftrightarrow> prefix pre s"
  by (auto simp: HasPrefix_def prefix_def) (metis append_take_drop_id)

lemma scan_find: "scan objs object = List.find (matches object) objs"
  by (induction objs) (simp_all add: matches_def)

lemma HasPrefix_empty: "HasPrefix s []"
  by (simp add: HasPrefix_def)

lemma packs_loop_fail:
  assumes "archive env basedir name = Inl e"
  shows "\<exists>ds tr'. packs_loop env basedir object (name # packs) defers tr = (Inl (ErrExternal e), ds, tr')
           \<and> packs_loop env basedir object [name] defers tr = (Inl (ErrExternal e), ds, tr')"
  using assms
  by (auto simp: packs_loop.simps archive_def Let_def split: sum.splits)

lemma packs_loop_miss:
  assumes "clean_miss env basedir object name"
  shows "\<exists>pf idxf. Open env (pack_path env basedir name) = Inr pf \<and>
           Open env (idx_path env basedir name) = Inr idxf \<and>
           packs_loop env basedir object (name # packs) defers tr =
           packs_loop env basedir object packs (idxf # pf # defers)
             (tr @ [OpenCall (pack_path env basedir name), OpenCall (idx_path env basedir name),
                    VerifyCall pf idxf])"
  using assms
  by (auto simp: packs_loop.simps clean_miss_def archive_def Let_def split: sum.splits)

lemma packs_loop_hit:
  assumes "archive env basedir name = Inr objs" and "scan objs object = Some obj"
  shows "fst (packs_loop env basedir object (name # packs) defers tr) = Inr obj"
  using assms
  by (auto simp: packs_loop.simps archive_def Let_def split: sum.splits)

lemma packs_loop_prefix_fail:
  assumes "\<forall>n \<in> set pre. clean_miss env basedir object n" and "archive env basedir name = Inl e"
  shows "packs_loop env basedir object (pre @ name # post) defers tr =
           packs_loop env basedir object (pre @ [name]) defers tr \<and>
         fst (packs_loop env basedir object (pre @ name # post) defers tr) = Inl (ErrExternal e)"
  using assms(1)
proof (induction pre arbitrary: defers tr)
  case Nil
  from packs_loop_fail [OF assms(2), of object post defers tr] show ?case by auto
next
  case (Cons x pre)
  then have x: "clean_miss env basedir object x" by simp
  from packs_loop_miss [OF x, of "pre @ name # post" defers tr] obtain pf idxf where
    o: "Open env (pack_path env basedir x) = Inr pf" "Open env (idx_path env basedir x) = Inr idxf"
    and long: "packs_loop env basedir object (x # pre @ name # post) defers tr =
      packs_loop env basedir object (pre @ name # post) (idxf # pf # defers)
        (tr @ [OpenCall (pack_path env basedir x), OpenCall (idx_path env basedir x),
               VerifyCall pf idxf])"
    by auto
  from packs_loop_miss [OF x, of "pre @ [name]" defers tr] o
  have short: "packs_loop env basedir object (x # pre @ [name]) defers tr =
      packs_loop env basedir object (pre @ [name]) (idxf # pf # defers)
        (tr @ [OpenCall (pack_path env basedir x), OpenCall (idx_path env basedir x),
               VerifyCall pf idxf])"
    by auto
  from Cons.prems have "\<forall>n \<in> set pre. clean_miss env basedir object n" by simp
  from Cons.IH [OF this, of "idxf # pf # defers"
      "tr @ [OpenCall (pack_path env basedir x), OpenCall (idx_path env basedir x),
             VerifyCall pf idxf]"]
  have eq: "packs_loop env basedir object (pre @ name # post) (idxf # pf # defers)
        (tr @ [OpenCall (pack_path env basedir x), OpenCall (idx_path env basedir x),
               VerifyCall pf idxf]) =
      packs_loop env basedir object (pre @ [name]) (idxf # pf # defers)
        (tr @ [OpenCall (pack_path env basedir x), OpenCall (idx_path env basedir x),
               VerifyCall pf idxf])"
    and res: "fst (packs_loop env basedir object (pre @ name # post) (idxf # pf # defers)
        (tr @ [OpenCall (pack_path env basedir x), OpenCall (idx_path env basedir x),
               VerifyCall pf idxf])) = Inl (ErrExternal e)"
    by blast+
  show ?case
    unfolding append_Cons long short using eq res by (simp only: simp_thms)
qed

lemma opened_paths_append: "opened_paths (tr @ tr') = opened_paths tr @ opened_paths tr'"
  by (induction tr rule: opened_paths.induct) simp_all

lemma opened_paths_closes: "opened_paths (map CloseCall fs) = []"
  by (induction fs) simp_all

lemma packs_loop_all_ok:
  assumes "\<forall>n \<in> set packs. archive_ok env basedir n"
  shows "fst (packs_loop env basedir object packs defers tr) =
           (case List.find (matches object) (concat (map (archive_objs env basedir) packs)) of
              Some obj \<Rightarrow> Inr obj
            | None \<Rightarrow> Inl (ErrObjectNotInAnyPackfiles object))"
  using assms
proof (induction packs arbitrary: defers tr)
  case Nil
  then show ?case by (simp add: packs_loop.simps)
next
  case (Cons x packs)
  then obtain objs where objs: "archive env basedir x = Inr objs"
    by (auto simp: archive_ok_def split: sum.splits)
  then have ao: "archive_objs env basedir x = objs" by (simp add: archive_objs_def)
  show ?case
  proof (cases "scan objs object")
    case None
    with objs have "clean_miss env basedir object x" by (simp add: clean_miss_def)
    from packs_loop_miss [OF this, of packs defers tr] Cons None ao
    show ?thesis by (auto simp: scan_find find_app split: option.splits)
  next
    case (Some obj)
    from packs_loop_hit [OF objs Some, of packs defers tr] Some ao
    show ?thesis by (simp add: scan_find find_app)
  qed
qed

lemma packs_loop_not_found_trace:
  assumes "fst (packs_loop env basedir object packs defers tr) = Inl (ErrObjectNotInAnyPackfiles object)"
  shows "opened_paths (snd (snd (packs_loop env basedir object packs defers tr))) =
           opened_paths tr @ concat (map (archive_paths env basedir) packs)"
  using assms
proof (induction packs arbitrary: defers tr)
  case Nil
  then show ?case by (simp add: packs_loop.simps)
next
  case (Cons x packs)
  show ?case
  proof (cases "clean_miss env basedir object x")
    case True
    from packs_loop_miss [OF True, of packs defers tr] Cons
    show ?thesis by (auto simp: opened_paths_append archive_paths_def)
  next
    case False
    with Cons.prems show ?thesis
      by (auto simp: packs_loop.simps clean_miss_def archive_def Let_def
               split: sum.splits option.splits)
  qed
qed

section \<open>The search on the example directories\<close>

lemmas search_defs = searchPacks_def objInPacks_def listPackfiles_def

lemmas ex_env_defs = ex_env_def ex_env_broken_def ex_obj_def zero_packObject_def
  pack_path_def idx_path_def TrimSuffix_def HasSuffix_def HasPrefix_def

lemma ex_list: "listPackfiles ex_env ''r'' = Inr [''p1'', ''p2'']"
  by (simp add: listPackfiles_def ex_env_defs)

lemma ex_list_broken: "listPackfiles ex_env_broken ''r'' = Inr [''p1'', ''p2'', ''p3'']"
  by (simp add: listPackfiles_def ex_env_defs)

lemma ex_archive_p1:
  "archive ex_env ''r'' ''p1'' = Inr [ex_obj ''ab12'', ex_obj ''cd34'']"
  "archive ex_env_broken ''r'' ''p1'' = Inr [ex_obj ''ab12'', ex_obj ''cd34'']"
  by (simp_all add: archive_def ex_env_def ex_env_broken_def pack_path_def idx_path_def)

lemma ex_archive_p2:
  "archive ex_env ''r'' ''p2'' = Inr [ex_obj ''ef56'']"
  "archive ex_env_broken ''r'' ''p2'' = Inl ''no such file''"
  by (simp_all add: archive_def ex_env_def ex_env_broken_def pack_path_def idx_path_def)

section \<open>objInPacks and searchPacks in terms of the loop\<close>

lemma fst_objInPacks:
  "fst (objInPacks env packs object basedir) = fst (packs_loop env basedir object packs [] [])"
  by (cases "packs_loop env basedir object packs [] []") (simp add: objInPacks_def)

lemma opened_paths_objInPacks:
  "opened_paths (snd (objInPacks env packs object basedir)) =
     opened_paths (snd (snd (packs_loop env basedir object packs [] [])))"
  by (cases "packs_loop env basedir object packs [] []")
     (simp add: objInPacks_def opened_paths_append opened_paths_closes)

lemma searchPacks_listed:
  "listPackfiles env basedir = Inr packs \<Longrightarrow>
   searchPacks env object basedir = objInPacks env packs object basedir"
  by (simp add: searchPacks_def)

lemma ex_archive_objs:
  "archive_objs ex_env ''r'' ''p1'' = [ex_obj ''ab12'', ex_obj ''cd34'']"
  "archive_objs ex_env ''r'' ''p2'' = [ex_obj ''ef56'']"
  by (simp_all add: archive_objs_def ex_archive_p1 ex_archive_p2)

section \<open>An archive that cannot be opened or verified (C7)\<close>

text \<open>
  C7: when the archives the search has passed so far all opened, verified and held no match,
  and opening either file of the next archive fails or \<^verbatim>\<open>VerifyPack\<close> rejects it, the
  search returns that error, which is not the "object not in any packfiles" error, and it
  does exactly what a search over the archives up to that one does (result, \<^verbatim>\<open>os.Open\<close>
  calls, closes): no later archive is touched.
\<close>

theorem searchPacks_aborts_on_archive_error:
  assumes "listPackfiles env basedir = Inr (pre @ name # post)"
    and "\<forall>n \<in> set pre. clean_miss env basedir object n"
    and "archive env basedir name = Inl e"
  shows "fst (searchPacks env object basedir) = Inl (ErrExternal e) \<and>
         fst (searchPacks env object basedir) \<noteq> Inl (ErrObjectNotInAnyPackfiles object) \<and>
         searchPacks env object basedir = objInPacks env (pre @ [name]) object basedir"
proof -
  from packs_loop_prefix_fail [OF assms(2,3), of post "[]" "[]"]
  have eq: "packs_loop env basedir object (pre @ name # post) [] [] =
            packs_loop env basedir object (pre @ [name]) [] []"
    and res: "fst (packs_loop env basedir object (pre @ name # post) [] []) = Inl (ErrExternal e)"
    by blast+
  have same: "searchPacks env object basedir = objInPacks env (pre @ [name]) object basedir"
    using eq by (simp add: searchPacks_listed [OF assms(1)] objInPacks_def)
  have "fst (searchPacks env object basedir) = Inl (ErrExternal e)"
    using res by (simp add: searchPacks_listed [OF assms(1)] fst_objInPacks)
  with same show ?thesis by simp
qed

text \<open>Witness for C7: three archives, the second without its index file.\<close>

theorem searchPacks_aborts_on_archive_error_witness:
  "listPackfiles ex_env_broken ''r'' = Inr ([''p1''] @ ''p2'' # [''p3'']) \<and>
   clean_miss ex_env_broken ''r'' ''zz'' ''p1'' \<and>
   archive ex_env_broken ''r'' ''p2'' = Inl ''no such file'' \<and>
   fst (searchPacks ex_env_broken ''zz'' ''r'') = Inl (ErrExternal ''no such file'') \<and>
   searchPacks ex_env_broken ''zz'' ''r'' = objInPacks ex_env_broken ([''p1''] @ [''p2'']) ''zz'' ''r''"
proof -
  have l: "listPackfiles ex_env_broken ''r'' = Inr ([''p1''] @ ''p2'' # [''p3''])"
    by (simp add: ex_list_broken)
  have c: "\<forall>n \<in> set [''p1'']. clean_miss ex_env_broken ''r'' ''zz'' n"
    by (simp add: clean_miss_def ex_archive_p1 ex_obj_def HasPrefix_def)
  have a: "archive ex_env_broken ''r'' ''p2'' = Inl ''no such file''"
    by (simp add: ex_archive_p2)
  have c1: "clean_miss ex_env_broken ''r'' ''zz'' ''p1''" using c by simp
  from searchPacks_aborts_on_archive_error [OF l c a]
  have "fst (searchPacks ex_env_broken ''zz'' ''r'') = Inl (ErrExternal ''no such file'')"
    and "searchPacks ex_env_broken ''zz'' ''r'' =
         objInPacks ex_env_broken ([''p1''] @ [''p2'']) ''zz'' ''r''"
    by blast+
  with l c1 a show ?thesis by blast
qed

section \<open>First match, and not found (C8)\<close>

text \<open>
  C8: when every archive of the directory opens and verifies, the search returns the first
  descriptor, in the order of the archives and of each archive's descriptors, whose
  \<^verbatim>\<open>Name\<close> has the query as a prefix; it returns the "object not in any packfiles" error
  if and only if no descriptor of any archive matches, and then it has opened both files of
  every archive of the directory.
\<close>

theorem searchPacks_first_match:
  assumes "listPackfiles env basedir = Inr packs"
    and "\<forall>n \<in> set packs. archive_ok env basedir n"
  shows "fst (searchPacks env object basedir) =
           (case List.find (matches object) (concat (map (archive_objs env basedir) packs)) of
              Some obj \<Rightarrow> Inr obj
            | None \<Rightarrow> Inl (ErrObjectNotInAnyPackfiles object)) \<and>
         (fst (searchPacks env object basedir) = Inl (ErrObjectNotInAnyPackfiles object) \<longleftrightarrow>
            (\<forall>n \<in> set packs. \<forall>obj \<in> set (archive_objs env basedir n). \<not> matches object obj)) \<and>
         (fst (searchPacks env object basedir) = Inl (ErrObjectNotInAnyPackfiles object) \<longrightarrow>
            opened_paths (snd (searchPacks env object basedir)) =
              concat (map (archive_paths env basedir) packs))"
proof -
  let ?loop = "packs_loop env basedir object packs [] []"
  have fst_eq: "fst (searchPacks env object basedir) = fst ?loop"
    by (simp add: searchPacks_listed [OF assms(1)] fst_objInPacks)
  have snd_eq: "opened_paths (snd (searchPacks env object basedir)) = opened_paths (snd (snd ?loop))"
    by (simp add: searchPacks_listed [OF assms(1)] opened_paths_objInPacks)
  have first: "fst ?loop =
           (case List.find (matches object) (concat (map (archive_objs env basedir) packs)) of
              Some obj \<Rightarrow> Inr obj
            | None \<Rightarrow> Inl (ErrObjectNotInAnyPackfiles object))"
    using assms(2) by (rule packs_loop_all_ok)
  have iff: "fst ?loop = Inl (ErrObjectNotInAnyPackfiles object) \<longleftrightarrow>
            (\<forall>n \<in> set packs. \<forall>obj \<in> set (archive_objs env basedir n). \<not> matches object obj)"
  proof -
    have "fst ?loop = Inl (ErrObjectNotInAnyPackfiles object) \<longleftrightarrow>
        List.find (matches object) (concat (map (archive_objs env basedir) packs)) = None"
      unfolding first by (simp split: option.splits)
    also have "\<dots> \<longleftrightarrow>
        (\<forall>n \<in> set packs. \<forall>obj \<in> set (archive_objs env basedir n). \<not> matches object obj)"
      by (auto simp: find_None_iff)
    finally show ?thesis .
  qed
  have tr: "fst ?loop = Inl (ErrObjectNotInAnyPackfiles object) \<Longrightarrow>
      opened_paths (snd (snd ?loop)) = concat (map (archive_paths env basedir) packs)"
    using packs_loop_not_found_trace [of env basedir object packs "[]" "[]"] by simp
  show ?thesis
    unfolding fst_eq snd_eq using first iff tr by blast
qed

text \<open>Witness for C8: the directory with two archives, a query found in the second archive
  and a query found in none.\<close>

theorem searchPacks_first_match_witness:
  "listPackfiles ex_env ''r'' = Inr [''p1'', ''p2''] \<and>
   archive_ok ex_env ''r'' ''p1'' \<and> archive_ok ex_env ''r'' ''p2'' \<and>
   fst (searchPacks ex_env ''ef'' ''r'') = Inr (ex_obj ''ef56'') \<and>
   fst (searchPacks ex_env ''zz'' ''r'') = Inl (ErrObjectNotInAnyPackfiles ''zz'') \<and>
   opened_paths (snd (searchPacks ex_env ''zz'' ''r'')) =
     [''r/objects/pack/p1.pack'', ''r/objects/pack/p1.idx'',
      ''r/objects/pack/p2.pack'', ''r/objects/pack/p2.idx'']"
proof -
  have l: "listPackfiles ex_env ''r'' = Inr [''p1'', ''p2'']" by (rule ex_list)
  have ok: "\<forall>n \<in> set [''p1'', ''p2'']. archive_ok ex_env ''r'' n"
    by (simp add: archive_ok_def ex_archive_p1 ex_archive_p2)
  note objs = ex_archive_objs
  have paths: "concat (map (archive_paths ex_env ''r'') [''p1'', ''p2'']) =
     [''r/objects/pack/p1.pack'', ''r/objects/pack/p1.idx'',
      ''r/objects/pack/p2.pack'', ''r/objects/pack/p2.idx'']"
    by (simp add: archive_paths_def pack_path_def idx_path_def ex_env_def)
  from searchPacks_first_match [OF l ok, of "''ef''"]
  have hit: "fst (searchPacks ex_env ''ef'' ''r'') = Inr (ex_obj ''ef56'')"
    by (simp add: objs matches_def HasPrefix_def ex_obj_def)
  from searchPacks_first_match [OF l ok, of "''zz''"]
  have miss: "fst (searchPacks ex_env ''zz'' ''r'') = Inl (ErrObjectNotInAnyPackfiles ''zz'')"
    and tr: "opened_paths (snd (searchPacks ex_env ''zz'' ''r'')) =
       concat (map (archive_paths ex_env ''r'') [''p1'', ''p2''])"
    by (simp_all add: objs matches_def HasPrefix_def ex_obj_def)
  from tr paths have tr': "opened_paths (snd (searchPacks ex_env ''zz'' ''r'')) =
     [''r/objects/pack/p1.pack'', ''r/objects/pack/p1.idx'',
      ''r/objects/pack/p2.pack'', ''r/objects/pack/p2.idx'']" by (simp only:)
  have ok1: "archive_ok ex_env ''r'' ''p1''" and ok2: "archive_ok ex_env ''r'' ''p2''"
    using ok by simp_all
  from l ok1 ok2 hit miss tr' show ?thesis by blast
qed

section \<open>The empty query (C10)\<close>

text \<open>
  C10: when the first archive of the directory opens, verifies and holds at least one
  descriptor, the search for the empty string returns the first descriptor of that archive;
  no length of the query is required.
\<close>

theorem searchPacks_empty_query:
  assumes "listPackfiles env basedir = Inr (name # rest)"
    and "archive env basedir name = Inr (obj # objs)"
  shows "fst (searchPacks env [] basedir) = Inr obj"
proof -
  have "scan (obj # objs) [] = Some obj" by (simp add: HasPrefix_empty)
  from packs_loop_hit [OF assms(2) this, of rest "[]" "[]"]
  show ?thesis by (simp add: searchPacks_listed [OF assms(1)] fst_objInPacks)
qed

text \<open>Witness for C10: the directory with two archives.\<close>

theorem searchPacks_empty_query_witness:
  "listPackfiles ex_env ''r'' = Inr (''p1'' # [''p2'']) \<and>
   archive ex_env ''r'' ''p1'' = Inr (ex_obj ''ab12'' # [ex_obj ''cd34'']) \<and>
   fst (searchPacks ex_env [] ''r'') = Inr (ex_obj ''ab12'')"
proof -
  have l: "listPackfiles ex_env ''r'' = Inr (''p1'' # [''p2''])" by (simp add: ex_list)
  have a: "archive ex_env ''r'' ''p1'' = Inr (ex_obj ''ab12'' # [ex_obj ''cd34''])"
    by (simp add: ex_archive_p1)
  from searchPacks_empty_query [OF l a] l a show ?thesis by blast
qed

section \<open>When the files are closed (C9)\<close>

text \<open>
  Every \<^verbatim>\<open>Close\<close> is deferred to the return of \<^verbatim>\<open>objInPacks\<close>: in every trace the closes
  come after all the other events.
\<close>

lemma packs_loop_no_close:
  assumes "\<forall>ev \<in> set tr. \<not> is_close ev"
  shows "\<forall>ev \<in> set (snd (snd (packs_loop env basedir object packs defers tr))). \<not> is_close ev"
  using assms
proof (induction packs arbitrary: defers tr)
  case Nil
  then show ?case by (simp add: packs_loop.simps)
next
  case (Cons x packs)
  show ?case
  proof (cases "clean_miss env basedir object x")
    case True
    from packs_loop_miss [OF True, of packs defers tr] obtain pf idxf where
      step: "packs_loop env basedir object (x # packs) defers tr =
        packs_loop env basedir object packs (idxf # pf # defers)
          (tr @ [OpenCall (pack_path env basedir x), OpenCall (idx_path env basedir x),
                 VerifyCall pf idxf])" by blast
    have "\<forall>ev \<in> set (tr @ [OpenCall (pack_path env basedir x), OpenCall (idx_path env basedir x),
                 VerifyCall pf idxf]). \<not> is_close ev"
      using Cons.prems by simp
    from Cons.IH [OF this] step show ?thesis by simp
  next
    case False
    with Cons.prems show ?thesis
      by (auto simp: packs_loop.simps clean_miss_def archive_def Let_def
               split: sum.splits option.splits)
  qed
qed

lemma objInPacks_closes_at_return:
  "\<exists>tr fs. snd (objInPacks env packs object basedir) = tr @ map CloseCall fs \<and>
           (\<forall>ev \<in> set tr. \<not> is_close ev)"
proof (cases "packs_loop env basedir object packs [] []")
  case (fields r defers tr)
  from packs_loop_no_close [of "[]" env basedir object packs "[]"] fields
  have "\<forall>ev \<in> set tr. \<not> is_close ev" by simp
  with fields show ?thesis by (auto simp: objInPacks_def)
qed

text \<open>
  C9 says that each archive's two files are released before the search moves to the next
  archive. The source does not do so: on the directory with two archives and a query that is
  in neither, the files of the first archive are still open while the second archive is
  opened and verified, and all four are closed at the end, last opened first; on the
  directory whose second archive lacks its index, the three open files are closed only after
  the failed \<^verbatim>\<open>os.Open\<close>.
\<close>

theorem searchPacks_holds_files_until_return:
  "snd (searchPacks ex_env ''zz'' ''r'') =
     [OpenCall ''r/objects/pack/p1.pack'', OpenCall ''r/objects/pack/p1.idx'',
      VerifyCall ''r/objects/pack/p1.pack'' ''r/objects/pack/p1.idx'',
      OpenCall ''r/objects/pack/p2.pack'', OpenCall ''r/objects/pack/p2.idx'',
      VerifyCall ''r/objects/pack/p2.pack'' ''r/objects/pack/p2.idx'',
      CloseCall ''r/objects/pack/p2.idx'', CloseCall ''r/objects/pack/p2.pack'',
      CloseCall ''r/objects/pack/p1.idx'', CloseCall ''r/objects/pack/p1.pack''] \<and>
   snd (searchPacks ex_env_broken ''zz'' ''r'') =
     [OpenCall ''r/objects/pack/p1.pack'', OpenCall ''r/objects/pack/p1.idx'',
      VerifyCall ''r/objects/pack/p1.pack'' ''r/objects/pack/p1.idx'',
      OpenCall ''r/objects/pack/p2.pack'', OpenCall ''r/objects/pack/p2.idx'',
      CloseCall ''r/objects/pack/p2.pack'',
      CloseCall ''r/objects/pack/p1.idx'', CloseCall ''r/objects/pack/p1.pack'']"
  unfolding searchPacks_listed [OF ex_list] searchPacks_listed [OF ex_list_broken]
  by (simp add: objInPacks_def packs_loop.simps pack_path_def idx_path_def ex_env_def Let_def
        ex_env_broken_def ex_obj_def zero_packObject_def HasPrefix_def)

section \<open>normalize (C1)\<close>

lemma delta_not_parsed_type:
  "OBJ_OFS_DELTA \<le> t \<Longrightarrow> t \<noteq> OBJ_COMMIT \<and> t \<noteq> OBJ_TREE \<and> t \<noteq> OBJ_BLOB"
  by (auto simp: obj_consts word_le_nat_alt)

text \<open>
  C1, as the source has it: \<^verbatim>\<open>normalize\<close> dispatches on the descriptor's own type
  \<^verbatim>\<open>_type\<close>, whether or not \<^verbatim>\<open>Patch\<close> has run: a commit, tree or blob type is routed to
  the corresponding parser (on \<^verbatim>\<open>PatchedData\<close>, or \<^verbatim>\<open>Data\<close> when that is nil); every
  other type, in particular a delta type whatever its patched type, gives the descriptor
  itself back as the generic object.
\<close>

theorem normalize_dispatches_on_type:
  assumes "h p = Some obj"
  shows "(obj_type obj = OBJ_COMMIT \<longrightarrow>
            normalize ps p basedir h =
              (Returns (map_sum id CommitObject
                 (parsed (parseCommit ps (bytes_of (PatchedData (default_patched obj)))
                    (Itoa (Size obj)) (Name obj)))),
               h(p \<mapsto> default_patched obj))) \<and>
         (obj_type obj = OBJ_TREE \<longrightarrow>
            normalize ps p basedir h =
              (Returns (map_sum id TreeObject
                 (parsed (parseTree ps (bytes_of (PatchedData (default_patched obj)))
                    (Itoa (Size obj)) basedir))),
               h(p \<mapsto> default_patched obj))) \<and>
         (obj_type obj = OBJ_BLOB \<longrightarrow>
            normalize ps p basedir h =
              (Returns (map_sum id BlobObject
                 (parsed (parseBlob ps (bytes_of (PatchedData (default_patched obj))) basedir))),
               h(p \<mapsto> default_patched obj))) \<and>
         (obj_type obj \<noteq> OBJ_COMMIT \<and> obj_type obj \<noteq> OBJ_TREE \<and> obj_type obj \<noteq> OBJ_BLOB \<longrightarrow>
            normalize ps p basedir h = (Returns (Inr (PackObject p)), h)) \<and>
         (OBJ_OFS_DELTA \<le> obj_type obj \<longrightarrow>
            normalize ps p basedir h = (Returns (Inr (PackObject p)), h))"
proof -
  have size: "Size (default_patched obj) = Size obj" "Name (default_patched obj) = Name obj"
    by (simp_all add: default_patched_def)
  have c: "obj_type obj = OBJ_COMMIT \<Longrightarrow> normalize ps p basedir h =
              (Returns (map_sum id CommitObject
                 (parsed (parseCommit ps (bytes_of (PatchedData (default_patched obj)))
                    (Itoa (Size obj)) (Name obj)))),
               h(p \<mapsto> default_patched obj))"
    using assms
    by (simp add: normalize_def Commit_def as_GitObject_def Let_def size split: sum.splits)
  have t: "obj_type obj = OBJ_TREE \<Longrightarrow> normalize ps p basedir h =
              (Returns (map_sum id TreeObject
                 (parsed (parseTree ps (bytes_of (PatchedData (default_patched obj)))
                    (Itoa (Size obj)) basedir))),
               h(p \<mapsto> default_patched obj))"
    using assms
    by (simp add: normalize_def Tree_def as_GitObject_def Let_def size obj_consts split: sum.splits)
  have b: "obj_type obj = OBJ_BLOB \<Longrightarrow> normalize ps p basedir h =
              (Returns (map_sum id BlobObject
                 (parsed (parseBlob ps (bytes_of (PatchedData (default_patched obj))) basedir))),
               h(p \<mapsto> default_patched obj))"
    using assms
    by (simp add: normalize_def Blob_def as_GitObject_def Let_def size obj_consts split: sum.splits)
  have other: "obj_type obj \<noteq> OBJ_COMMIT \<and> obj_type obj \<noteq> OBJ_TREE \<and> obj_type obj \<noteq> OBJ_BLOB \<Longrightarrow>
            normalize ps p basedir h = (Returns (Inr (PackObject p)), h)"
    using assms by (simp add: normalize_def)
  from c t b other delta_not_parsed_type [of "obj_type obj"] show ?thesis by blast
qed

text \<open>Witness for C1: the resolved delta at address 1 and the commit at address 0.\<close>

theorem normalize_dispatches_on_type_witness:
  "ex_heap1 1 = Some ex_delta_patched \<and> OBJ_OFS_DELTA \<le> obj_type ex_delta_patched \<and>
   normalize ex_parsers 1 ''r'' ex_heap1 = (Returns (Inr (PackObject 1)), ex_heap1) \<and>
   ex_heap1 0 = Some ex_commit_patched \<and> obj_type ex_commit_patched = OBJ_COMMIT \<and>
   normalize ex_parsers 0 ''r'' ex_heap1 = (Returns (Inr (CommitObject [3, 4])), ex_heap1)"
proof -
  have d: "ex_heap1 1 = Some ex_delta_patched" "OBJ_OFS_DELTA \<le> obj_type ex_delta_patched"
    by (simp_all add: ex_heaps ex_objs obj_consts)
  have c: "ex_heap1 0 = Some ex_commit_patched" "obj_type ex_commit_patched = OBJ_COMMIT"
    by (simp_all add: ex_heaps ex_objs obj_consts)
  have same: "ex_heap1(0 \<mapsto> default_patched ex_commit_patched) = ex_heap1"
    by (rule ext) (simp add: ex_heaps default_patched_def ex_objs)
  have parse: "parsed (parseCommit ex_parsers (bytes_of (PatchedData (default_patched ex_commit_patched)))
      (Itoa (Size ex_commit_patched)) (Name ex_commit_patched)) = Inr [3, 4]"
    by (simp add: ex_parsers_def parsed_def default_patched_def ex_objs bytes_of_def)
  from normalize_dispatches_on_type [where h = ex_heap1 and p = 1, OF d(1), of ex_parsers "''r''"] d(2)
  have n1: "normalize ex_parsers 1 ''r'' ex_heap1 = (Returns (Inr (PackObject 1)), ex_heap1)"
    by blast
  from normalize_dispatches_on_type [where h = ex_heap1 and p = 0, OF c(1), of ex_parsers "''r''"] c(2)
  have n0: "normalize ex_parsers 0 ''r'' ex_heap1 = (Returns (Inr (CommitObject [3, 4])), ex_heap1)"
    by (simp add: same parse)
  from d c n1 n0 show ?thesis by blast
qed

text \<open>
  C1 as the claim states it (a resolved delta whose resolved kind is Commit is routed to the
  commit parser) fails: after \<^verbatim>\<open>Patch\<close> the delta at address 1 has patched type
  \<^verbatim>\<open>OBJ_COMMIT\<close>, and \<^verbatim>\<open>normalize\<close> returns the descriptor itself, not the parsed commit.
\<close>

theorem normalize_resolved_delta_counterexample:
  "Patch ex_patchDelta ex_dict 1 ex_heap = Some (Success, ex_heap1) \<and>
   ex_heap1 1 = Some ex_delta_patched \<and>
   PatchedType ex_delta_patched = OBJ_COMMIT \<and>
   normalize ex_parsers 1 ''r'' ex_heap1 = (Returns (Inr (PackObject 1)), ex_heap1) \<and>
   fst (normalize ex_parsers 1 ''r'' ex_heap1) \<noteq>
     Returns (map_sum id CommitObject
       (parsed (parseCommit ex_parsers (bytes_of (PatchedData ex_delta_patched))
          (Itoa (Size ex_delta_patched)) (Name ex_delta_patched))))"
proof -
  have p: "Patch ex_patchDelta ex_dict 1 ex_heap = Some (Success, ex_heap1)"
    by (simp add: Patch.simps ex_heaps ex_objs obj_consts patch_defs)
  have d: "ex_heap1 1 = Some ex_delta_patched" by (simp add: ex_heaps)
  have t: "PatchedType ex_delta_patched = OBJ_COMMIT"
    by (simp add: PatchedType_def ex_objs obj_consts)
  have n: "normalize ex_parsers 1 ''r'' ex_heap1 = (Returns (Inr (PackObject 1)), ex_heap1)"
    using d by (simp add: normalize_def ex_objs obj_consts)
  have "parsed (parseCommit ex_parsers (bytes_of (PatchedData ex_delta_patched))
          (Itoa (Size ex_delta_patched)) (Name ex_delta_patched)) = Inr [3, 4, 9]"
    by (simp add: ex_parsers_def parsed_def ex_objs bytes_of_def)
  with p d t n show ?thesis by simp
qed

end
